theory Spec2Isabelle
  imports Main "HOL-Library.Word"
begin

section \<open>Data model (types.ts)\<close>

datatype UserRole = Operations | ProjectManagement | SalesMarketing | Procurement
  | ErectionCommissioning | EngineeringDesign | GeneralAI

datatype MembershipType = Free | Premium

text \<open>The literal union \<^verbatim>\<open>'register' | 'login' | 'reset'\<close> of the OTP store.\<close>

datatype OTPType = RegisterOTP | LoginOTP | ResetOTP

record ActivityStats =
  totalChats :: nat
  filesUploaded :: nat
  reportsGenerated :: nat

record Settings =
  st_autoLogout :: bool
  st_rememberMe :: bool
  st_notifications :: bool

text \<open>
  \<^verbatim>\<open>interface User\<close>. The field \<^verbatim>\<open>id\<close> is called \<open>uid\<close> here (\<open>id\<close> is the identity
  function of HOL). Dates are kept as millisecond timestamps.
\<close>

record User =
  uid :: string
  fullName :: string
  email :: string
  mobile :: string
  isAuthenticated :: bool
  registrationDate :: nat
  membershipType :: MembershipType
  preferredRole :: "UserRole option"
  profilePicture :: "string option"
  lastLoginDate :: "nat option"
  activityStats :: "ActivityStats option"

text \<open>
  The values of the \<^verbatim>\<open>users\<close> map: \<^verbatim>\<open>User & { hashedPassword: string }\<close>. The
  \<open>settings\<close> field is the one further property that \<^verbatim>\<open>Object.assign\<close> with a
  \<^verbatim>\<open>Partial<UserProfile>\<close> can add to such an object.
\<close>

record StoredUser = User +
  hashedPassword :: string
  settings :: "Settings option"

text \<open>\<^verbatim>\<open>Partial<UserProfile>\<close>: every property may be absent.\<close>

record UserProfileUpdates =
  upd_id :: "string option"
  upd_fullName :: "string option"
  upd_email :: "string option"
  upd_mobile :: "string option"
  upd_membershipType :: "MembershipType option"
  upd_preferredRole :: "UserRole option"
  upd_profilePicture :: "string option"
  upd_registrationDate :: "nat option"
  upd_lastLoginDate :: "nat option"
  upd_activityStats :: "ActivityStats option"
  upd_settings :: "Settings option"

record RegisterData =
  reg_fullName :: string
  reg_email :: string
  reg_mobile :: string
  reg_password :: string

record LoginData =
  emailOrMobile :: string
  password :: string

record PasswordResetData =
  rst_email :: string
  newPassword :: string
  rst_otp :: string

record OTPResponse =
  success :: bool
  message :: string
  otpSent :: "bool option"
  respOtp :: "string option"

record OTPEntry =
  otp :: string
  otpExpires :: nat
  otpType :: OTPType

record Session =
  userId :: string
  expires :: nat

text \<open>What a call can do besides returning: the exceptions of the service.\<close>

datatype error = Error string | ReferenceError string

datatype 'a outcome = Returned 'a | Raised error

section \<open>The JavaScript \<^verbatim>\<open>Map\<close>: keys in insertion order\<close>

text \<open>
  \<^verbatim>\<open>Map.prototype.set\<close> keeps the position of a key that is already present and
  appends a new key at the end; iteration (\<^verbatim>\<open>values()\<close>, \<^verbatim>\<open>entries()\<close>) follows
  that order.
\<close>

fun mapSet :: "'k \<Rightarrow> 'v \<Rightarrow> ('k \<times> 'v) list \<Rightarrow> ('k \<times> 'v) list" where
  "mapSet k v [] = [(k, v)]"
| "mapSet k v ((k', v') # m) = (if k' = k then (k, v) # m else (k', v') # mapSet k v m)"

definition mapGet :: "('k \<times> 'v) list \<Rightarrow> 'k \<Rightarrow> 'v option" where
  "mapGet m k = map_of m k"

definition mapHas :: "('k \<times> 'v) list \<Rightarrow> 'k \<Rightarrow> bool" where
  "mapHas m k = (map_of m k \<noteq> None)"

definition mapDelete :: "'k \<Rightarrow> ('k \<times> 'v) list \<Rightarrow> ('k \<times> 'v) list" where
  "mapDelete k m = filter (\<lambda>kv. fst kv \<noteq> k) m"

section \<open>The state of \<^verbatim>\<open>AuthService\<close>\<close>

text \<open>
  The three static maps of the class and the two \<^verbatim>\<open>localStorage\<close> items it uses.
  The values of \<^verbatim>\<open>users\<close> are object references: one object is stored under the
  email and under the mobile key, and \<^verbatim>\<open>Object.assign\<close> or a field assignment
  through one key is seen through the other. So \<open>users\<close> maps a key to an address and
  \<open>heap\<close> holds the objects; an address is an index of \<open>heap\<close>, and a new object is
  appended. \<open>fortas_users\<close> is the parsed JSON array of the item of that name (absent
  is \<open>[]\<close>, as in \<^verbatim>\<open>getItem('fortas_users') || '[]'\<close>).
\<close>

record AuthService =
  heap :: "StoredUser list"
  users :: "(string \<times> nat) list"
  otpStore :: "(string \<times> OTPEntry) list"
  sessions :: "(string \<times> Session) list"
  fortas_users :: "StoredUser list"
  fortas_session_token :: "string option"

section \<open>Number formatting\<close>

definition digitChar :: "nat \<Rightarrow> char" where
  "digitChar d = ''0123456789abcdefghijklmnopqrstuvwxyz'' ! d"

text \<open>
  \<^verbatim>\<open>Number.prototype.toString(radix)\<close> on a non-negative integer, for the radices the
  service uses (10, 16 and 36). Outside 2..36 JavaScript raises a RangeError; no call of
  the service is there, and the model returns the empty string.
\<close>

function toStringRadix :: "nat \<Rightarrow> nat \<Rightarrow> string" where
  "toStringRadix radix n =
     (if radix < 2 \<or> 36 < radix then []
      else if n < radix then [digitChar n]
      else toStringRadix radix (n div radix) @ [digitChar (n mod radix)])"
  by pat_completeness auto
termination
  by (relation "measure snd") auto

definition padStart :: "nat \<Rightarrow> char \<Rightarrow> string \<Rightarrow> string" where
  "padStart n c str = replicate (n - length str) c @ str"

section \<open>PasswordUtils\<close>

text \<open>
  \<open>sha\<close> stands for the platform's
  \<^verbatim>\<open>crypto.subtle.digest('SHA-256', new TextEncoder().encode(_))\<close>: a function from the
  text to the bytes of its digest. It is a parameter of every operation that hashes.
\<close>

text \<open>The arrow function \<^verbatim>\<open>b => b.toString(16).padStart(2, '0')\<close>.\<close>

definition hexByte :: "8 word \<Rightarrow> string" where
  "hexByte b = padStart 2 (CHR ''0'') (toStringRadix 16 (unat b))"

definition hashPassword :: "(string \<Rightarrow> 8 word list) \<Rightarrow> string \<Rightarrow> string" where
  "hashPassword sha pw =
     (let hashArray = sha (pw @ ''salt_key_2024'')
      in concat (map hexByte hashArray))"

definition verifyPassword :: "(string \<Rightarrow> 8 word list) \<Rightarrow> string \<Rightarrow> string \<Rightarrow> bool" where
  "verifyPassword sha pw hashed = (let hashedInput = hashPassword sha pw in hashedInput = hashed)"

section \<open>One-time passwords\<close>

text \<open>
  \<^verbatim>\<open>Math.floor(100000 + Math.random() * 900000).toString()\<close>; the argument is the
  random draw \<^verbatim>\<open>Math.floor(Math.random() * 900000)\<close>.
\<close>

definition generateOTP :: "nat \<Rightarrow> string" where
  "generateOTP r = toStringRadix 10 (100000 + r)"

text \<open>\<open>now\<close> is the value of \<^verbatim>\<open>Date.now()\<close> during the call.\<close>

definition sendOTP :: "nat \<Rightarrow> nat \<Rightarrow> string \<Rightarrow> OTPType \<Rightarrow> AuthService \<Rightarrow> OTPResponse \<times> AuthService" where
  "sendOTP r now identifier type s =
     (let code = generateOTP r;
          expiry = now + 300000
      in (\<lparr>success = True, message = ''OTP sent to '' @ identifier,
           otpSent = Some True, respOtp = Some code\<rparr>,
          s\<lparr>otpStore := mapSet identifier \<lparr>otp = code, otpExpires = expiry, otpType = type\<rparr> (otpStore s)\<rparr>))"

definition verifyOTP :: "nat \<Rightarrow> string \<Rightarrow> string \<Rightarrow> OTPType \<Rightarrow> AuthService \<Rightarrow> bool \<times> AuthService" where
  "verifyOTP now identifier code type s =
     (case mapGet (otpStore s) identifier of
        None \<Rightarrow> (False, s)
      | Some stored \<Rightarrow>
          if otpType stored \<noteq> type then (False, s)
          else if now > otpExpires stored then (False, s\<lparr>otpStore := mapDelete identifier (otpStore s)\<rparr>)
          else if otp stored = code then (True, s\<lparr>otpStore := mapDelete identifier (otpStore s)\<rparr>)
          else (False, s))"

section \<open>The user store\<close>

text \<open>
  \<^verbatim>\<open>loadUsers\<close>: every element of the parsed array is a new object, set under its
  email and under its mobile. Keys that are in the map already and belong to no element
  of the array are left as they are.
\<close>

definition loadUser :: "StoredUser \<Rightarrow> AuthService \<Rightarrow> AuthService" where
  "loadUser user s =
     (let a = length (heap s)
      in s\<lparr>heap := heap s @ [user],
           users := mapSet (mobile user) a (mapSet (email user) a (users s))\<rparr>)"

definition loadUsers :: "AuthService \<Rightarrow> AuthService" where
  "loadUsers s = fold loadUser (fortas_users s) s"

text \<open>\<^verbatim>\<open>Array.prototype.findIndex\<close>: the first index whose element passes, or -1.\<close>

fun findIndex :: "('a \<Rightarrow> bool) \<Rightarrow> 'a list \<Rightarrow> int" where
  "findIndex p [] = - 1"
| "findIndex p (x # xs) =
     (if p x then 0 else (let i = findIndex p xs in if i < 0 then - 1 else i + 1))"

text \<open>
  \<^verbatim>\<open>arr.filter((user, index, arr) => arr.findIndex(u => u.id === user.id) === index)\<close>:
  an element is kept when it is the first one with its id.
\<close>

definition firstById :: "StoredUser list \<Rightarrow> StoredUser list" where
  "firstById arr =
     map snd (filter (\<lambda>(index, user). findIndex (\<lambda>u. uid u = uid user) arr = int index)
                (zip [0..<length arr] arr))"

text \<open>
  \<^verbatim>\<open>saveUsers\<close>: the values of the map in iteration order, without the later
  elements of an id, written to the \<^verbatim>\<open>fortas_users\<close> item.
\<close>

definition saveUsers :: "AuthService \<Rightarrow> AuthService" where
  "saveUsers s =
     (let usersArray = firstById (map (\<lambda>kv. heap s ! snd kv) (users s))
      in s\<lparr>fortas_users := usersArray\<rparr>)"

text \<open>The object literal that \<^verbatim>\<open>login\<close>, \<^verbatim>\<open>getCurrentUser\<close> and \<^verbatim>\<open>updateProfile\<close> return.\<close>

definition toUser :: "StoredUser \<Rightarrow> User" where
  "toUser user =
     \<lparr>uid = uid user, fullName = fullName user, email = email user, mobile = mobile user,
      isAuthenticated = True, registrationDate = registrationDate user,
      membershipType = membershipType user, preferredRole = preferredRole user,
      profilePicture = profilePicture user, lastLoginDate = lastLoginDate user,
      activityStats = activityStats user\<rparr>"

text \<open>\<^verbatim>\<open>{ ...user, hashedPassword }\<close>.\<close>

definition withPassword :: "User \<Rightarrow> string \<Rightarrow> StoredUser" where
  "withPassword user hashed =
     \<lparr>uid = uid user, fullName = fullName user, email = email user, mobile = mobile user,
      isAuthenticated = isAuthenticated user, registrationDate = registrationDate user,
      membershipType = membershipType user, preferredRole = preferredRole user,
      profilePicture = profilePicture user, lastLoginDate = lastLoginDate user,
      activityStats = activityStats user, hashedPassword = hashed, settings = None\<rparr>"

text \<open>\<^verbatim>\<open>Object.assign(user, updates)\<close>: every property present in \<open>updates\<close> is written.\<close>

definition objectAssign :: "StoredUser \<Rightarrow> UserProfileUpdates \<Rightarrow> StoredUser" where
  "objectAssign user updates =
     user\<lparr>uid := (case upd_id updates of None \<Rightarrow> uid user | Some v \<Rightarrow> v),
          fullName := (case upd_fullName updates of None \<Rightarrow> fullName user | Some v \<Rightarrow> v),
          email := (case upd_email updates of None \<Rightarrow> email user | Some v \<Rightarrow> v),
          mobile := (case upd_mobile updates of None \<Rightarrow> mobile user | Some v \<Rightarrow> v),
          membershipType :=
            (case upd_membershipType updates of None \<Rightarrow> membershipType user | Some v \<Rightarrow> v),
          preferredRole :=
            (case upd_preferredRole updates of None \<Rightarrow> preferredRole user | Some v \<Rightarrow> Some v),
          profilePicture :=
            (case upd_profilePicture updates of None \<Rightarrow> profilePicture user | Some v \<Rightarrow> Some v),
          registrationDate :=
            (case upd_registrationDate updates of None \<Rightarrow> registrationDate user | Some v \<Rightarrow> v),
          lastLoginDate :=
            (case upd_lastLoginDate updates of None \<Rightarrow> lastLoginDate user | Some v \<Rightarrow> Some v),
          activityStats :=
            (case upd_activityStats updates of None \<Rightarrow> activityStats user | Some v \<Rightarrow> Some v),
          settings := (case upd_settings updates of None \<Rightarrow> settings user | Some v \<Rightarrow> Some v)\<rparr>"

section \<open>Sessions\<close>

text \<open>
  \<^verbatim>\<open>Math.random().toString(36).substring(2) + Date.now().toString(36)\<close>; \<open>rnd\<close> is the
  random first part.
\<close>

definition generateSessionToken :: "string \<Rightarrow> nat \<Rightarrow> string" where
  "generateSessionToken rnd now = rnd @ toStringRadix 36 now"

definition isSessionValid :: "nat \<Rightarrow> AuthService \<Rightarrow> bool" where
  "isSessionValid now s =
     (case fortas_session_token s of
        None \<Rightarrow> False
      | Some sessionToken \<Rightarrow>
          if sessionToken = [] then False
          else (case mapGet (sessions s) sessionToken of
                  Some session \<Rightarrow> now < expires session
                | None \<Rightarrow> False))"

section \<open>The operations of the service\<close>

definition register :: "(string \<Rightarrow> 8 word list) \<Rightarrow> nat \<Rightarrow> RegisterData \<Rightarrow> AuthService
    \<Rightarrow> User outcome \<times> AuthService" where
  "register sha now userData s0 =
     (let s = loadUsers s0
      in if mapHas (users s) (reg_email userData) \<or> mapHas (users s) (reg_mobile userData)
         then (Raised (Error ''User already exists with this email or mobile number''), s)
         else
           let newId = ''user_'' @ toStringRadix 10 now;
               hashed = hashPassword sha (reg_password userData);
               user = \<lparr>uid = newId, fullName = reg_fullName userData,
                       email = reg_email userData, mobile = reg_mobile userData,
                       isAuthenticated = True, registrationDate = now,
                       membershipType = Free, preferredRole = None, profilePicture = None,
                       lastLoginDate = Some now,
                       activityStats = Some \<lparr>totalChats = 0, filesUploaded = 0,
                                               reportsGenerated = 0\<rparr>\<rparr>;
               a = length (heap s);
               s1 = s\<lparr>heap := heap s @ [withPassword user hashed],
                      users := mapSet (reg_mobile userData) a
                                 (mapSet (reg_email userData) a (users s))\<rparr>
           in (Returned user, saveUsers s1))"

text \<open>
  \<^verbatim>\<open>login\<close> reads an identifier \<^verbatim>\<open>rememberMe\<close> that is neither a parameter nor a
  local nor an import of the module: it is looked up in the global scope when the line
  is reached. \<open>rememberMe\<close> is what that lookup finds: \<open>Some b\<close> for a global of
  truthiness \<open>b\<close>, \<open>None\<close> when there is no such global, and then the evaluation raises
  a ReferenceError. The user has been updated and saved by then.
\<close>

definition login :: "(string \<Rightarrow> 8 word list) \<Rightarrow> bool option \<Rightarrow> string \<Rightarrow> nat \<Rightarrow> LoginData
    \<Rightarrow> AuthService \<Rightarrow> User option outcome \<times> AuthService" where
  "login sha rememberMe rnd now credentials s0 =
     (let s = loadUsers s0
      in case mapGet (users s) (emailOrMobile credentials) of
           None \<Rightarrow> (Returned None, s)
         | Some a \<Rightarrow>
             if \<not> verifyPassword sha (password credentials) (hashedPassword (heap s ! a))
             then (Returned None, s)
             else
               let s1 = saveUsers (s\<lparr>heap := (heap s)[a := (heap s ! a)\<lparr>lastLoginDate := Some now\<rparr>]\<rparr>);
                   sessionToken = generateSessionToken rnd now
               in case rememberMe of
                    None \<Rightarrow> (Raised (ReferenceError ''rememberMe is not defined''), s1)
                  | Some remember \<Rightarrow>
                      let sessionExpiry = (if remember then now + 30 * 24 * 60 * 60 * 1000
                                           else now + 24 * 60 * 60 * 1000);
                          s2 = s1\<lparr>sessions := mapSet sessionToken
                                     \<lparr>userId = uid (heap s1 ! a), expires = sessionExpiry\<rparr>
                                     (sessions s1),
                                 fortas_session_token := Some sessionToken\<rparr>
                      in (Returned (Some (toUser (heap s2 ! a))), s2))"

definition resetPassword :: "(string \<Rightarrow> 8 word list) \<Rightarrow> nat \<Rightarrow> PasswordResetData
    \<Rightarrow> AuthService \<Rightarrow> bool \<times> AuthService" where
  "resetPassword sha now resetData s0 =
     (let s = loadUsers s0
      in case mapGet (users s) (rst_email resetData) of
           None \<Rightarrow> (False, s)
         | Some a \<Rightarrow>
             (case verifyOTP now (rst_email resetData) (rst_otp resetData) ResetOTP s of
                (isValidOTP, s1) \<Rightarrow>
                  if \<not> isValidOTP then (False, s1)
                  else (True, saveUsers (s1\<lparr>heap := (heap s1)
                          [a := (heap s1 ! a)\<lparr>hashedPassword :=
                                   hashPassword sha (newPassword resetData)\<rparr>]\<rparr>))))"

definition updateProfile :: "string \<Rightarrow> UserProfileUpdates \<Rightarrow> AuthService
    \<Rightarrow> User option \<times> AuthService" where
  "updateProfile ident updates s0 =
     (let s = loadUsers s0
      in case find (\<lambda>kv. uid (heap s ! snd kv) = ident) (users s) of
           None \<Rightarrow> (None, s)
         | Some (key, a) \<Rightarrow>
             let s1 = saveUsers (s\<lparr>heap := (heap s)[a := objectAssign (heap s ! a) updates]\<rparr>)
             in (Some (toUser (heap s1 ! a)), s1))"

text \<open>
  How \<^verbatim>\<open>login\<close> and \<^verbatim>\<open>resetPassword\<close> resolve a key: \<^verbatim>\<open>this.loadUsers()\<close>, then
  \<^verbatim>\<open>this.users.get(key)\<close>, here with the object the reference points to.
\<close>

definition resolveKey :: "string \<Rightarrow> AuthService \<Rightarrow> StoredUser option" where
  "resolveKey key s0 =
     (let s = loadUsers s0
      in case mapGet (users s) key of None \<Rightarrow> None | Some a \<Rightarrow> Some (heap s ! a))"

text \<open>The class as the page loads it: empty maps, nothing in \<^verbatim>\<open>localStorage\<close>.\<close>

definition initialService :: AuthService where
  "initialService = \<lparr>heap = [], users = [], otpStore = [], sessions = [],
                      fortas_users = [], fortas_session_token = None\<rparr>"


section \<open>Consistent stores\<close>

text \<open>A stored object is reached by its email and by its mobile.\<close>

definition ownsKey :: "string \<Rightarrow> StoredUser \<Rightarrow> bool" where
  "ownsKey k u \<longleftrightarrow> email u = k \<or> mobile u = k"

text \<open>
  A store whose map and saved collection agree: the keys of the map are distinct (it is
  a \<^verbatim>\<open>Map\<close>), every key of the map is the email or the mobile of a saved user, the
  saved users have distinct ids, and no email or mobile is shared by two of them. The
  store of a first visit, with nothing saved, is so, and a registration with a new id
  keeps it so.
\<close>

definition consistent :: "AuthService \<Rightarrow> bool" where
  "consistent s \<longleftrightarrow>
     distinct (map fst (users s))
   \<and> (\<forall>k \<in> fst ` set (users s). \<exists>u \<in> set (fortas_users s). ownsKey k u)
   \<and> distinct (map uid (fortas_users s))
   \<and> (\<forall>u \<in> set (fortas_users s). \<forall>v \<in> set (fortas_users s).
         ownsKey (email u) v \<or> ownsKey (mobile u) v \<longrightarrow> u = v)"

section \<open>Data of the examples\<close>

text \<open>
  The examples need one concrete function in the place of \<open>sha\<close>. This one returns
  the bytes of the text; the theorems hold for every function.
\<close>

definition exampleDigest :: "string \<Rightarrow> 8 word list" where
  "exampleDigest text = map (\<lambda>c. of_nat (of_char c)) text"

definition asha :: RegisterData where
  "asha = \<lparr>reg_fullName = ''Asha'', reg_email = ''a@x.com'', reg_mobile = ''9990001111'',
           reg_password = ''pw1''\<rparr>"

definition ashaRegistered :: AuthService where
  "ashaRegistered = snd (register exampleDigest 1000 asha initialService)"

definition emailChange :: UserProfileUpdates where
  "emailChange = \<lparr>upd_id = None, upd_fullName = None, upd_email = Some ''b@x.com'',
                   upd_mobile = None, upd_membershipType = None, upd_preferredRole = None,
                   upd_profilePicture = None, upd_registrationDate = None,
                   upd_lastLoginDate = None, upd_activityStats = None, upd_settings = None\<rparr>"

section \<open>Facts about the map operations\<close>

lemma map_of_mapSet: "map_of (mapSet k v m) = (map_of m)(k \<mapsto> v)"
  by (induction m) (auto simp: fun_eq_iff)

lemma mapGet_mapSet: "mapGet (mapSet k v m) k' = (if k' = k then Some v else mapGet m k')"
  by (simp add: mapGet_def map_of_mapSet)

lemma mapGet_mapDelete: "mapGet (mapDelete k m) k' = (if k' = k then None else mapGet m k')"
  by (induction m) (auto simp: mapGet_def mapDelete_def)

section \<open>Properties of the OTP store\<close>

text \<open>
  C6. OTP codes are single-use. After \<open>sendOTP\<close> has issued a code for a target and a
  purpose, a \<open>verifyOTP\<close> with that target, code and purpose made no later than the expiry
  returns true; and whenever it returns true, the entry of the target is deleted and a
  second \<open>verifyOTP\<close> with the same target, code and purpose returns false, at any time.
\<close>

theorem otp_single_use:
  assumes issue: "sendOTP r t0 target purpose s0 = (resp, s1)"
    and first: "verifyOTP t1 target (the (respOtp resp)) purpose s1 = (ok, s2)"
  shows "(t1 \<le> t0 + 300000 \<longrightarrow> ok)
       \<and> (ok \<longrightarrow> mapGet (otpStore s2) target = None
                \<and> verifyOTP t2 target (the (respOtp resp)) purpose s2 = (False, s2))"
proof -
  from issue have resp: "respOtp resp = Some (generateOTP r)"
    and s1: "mapGet (otpStore s1) target
               = Some \<lparr>otp = generateOTP r, otpExpires = t0 + 300000, otpType = purpose\<rparr>"
    by (auto simp: sendOTP_def Let_def mapGet_mapSet)
  from first resp s1 have live: "t1 \<le> t0 + 300000 \<longrightarrow> ok"
    by (auto simp: verifyOTP_def)
  have used: "mapGet (otpStore s2) target = None
            \<and> verifyOTP t2 target (the (respOtp resp)) purpose s2 = (False, s2)" if ok
  proof -
    from first resp s1 that have "s2 = s1\<lparr>otpStore := mapDelete target (otpStore s1)\<rparr>"
      by (auto simp: verifyOTP_def split: if_splits)
    then have "mapGet (otpStore s2) target = None"
      by (simp add: mapGet_mapDelete)
    then show ?thesis
      by (simp add: verifyOTP_def)
  qed
  from live used show ?thesis by blast
qed

theorem otp_single_use_witness:
  "respOtp (fst (sendOTP 23456 1000 ''a@x.com'' ResetOTP initialService)) = Some ''123456''
   \<and> verifyOTP 2000 ''a@x.com'' ''123456'' ResetOTP
         (snd (sendOTP 23456 1000 ''a@x.com'' ResetOTP initialService))
       = (True, initialService)
   \<and> mapGet (otpStore initialService) ''a@x.com'' = None
   \<and> verifyOTP 3000 ''a@x.com'' ''123456'' ResetOTP initialService = (False, initialService)"
  using otp_single_use [of 23456 1000 "''a@x.com''" ResetOTP initialService
      "fst (sendOTP 23456 1000 ''a@x.com'' ResetOTP initialService)"
      "snd (sendOTP 23456 1000 ''a@x.com'' ResetOTP initialService)"
      2000 True initialService 3000]
  by (simp add: sendOTP_def verifyOTP_def generateOTP_def digitChar_def initialService_def Let_def
      mapGet_def mapDelete_def)

text \<open>
  C7. An OTP expires after five minutes. When more than 300000 ms have passed since
  \<open>sendOTP\<close> issued the code, \<open>verifyOTP\<close> with the matching code and purpose returns
  false, and that attempt deletes the entry of the target.
\<close>

theorem otp_expiry:
  assumes issue: "sendOTP r t0 target purpose s0 = (resp, s1)"
    and late: "t0 + 300000 < t1"
  shows "verifyOTP t1 target (the (respOtp resp)) purpose s1
           = (False, s1\<lparr>otpStore := mapDelete target (otpStore s1)\<rparr>)
       \<and> mapGet (otpStore (snd (verifyOTP t1 target (the (respOtp resp)) purpose s1))) target = None"
proof -
  from issue have "mapGet (otpStore s1) target
      = Some \<lparr>otp = generateOTP r, otpExpires = t0 + 300000, otpType = purpose\<rparr>"
    by (auto simp: sendOTP_def Let_def mapGet_mapSet)
  with late show ?thesis
    by (simp add: verifyOTP_def mapGet_mapDelete)
qed

theorem otp_expiry_witness:
  "(1000::nat) + 300000 < 301001
   \<and> fst (verifyOTP 301001 ''a@x.com'' ''123456'' ResetOTP
            (snd (sendOTP 23456 1000 ''a@x.com'' ResetOTP initialService))) = False
   \<and> otpStore (snd (verifyOTP 301001 ''a@x.com'' ''123456'' ResetOTP
            (snd (sendOTP 23456 1000 ''a@x.com'' ResetOTP initialService)))) = []"
  using otp_expiry [of 23456 1000 "''a@x.com''" ResetOTP initialService
      "fst (sendOTP 23456 1000 ''a@x.com'' ResetOTP initialService)"
      "snd (sendOTP 23456 1000 ''a@x.com'' ResetOTP initialService)" 301001]
  by (simp add: sendOTP_def verifyOTP_def generateOTP_def digitChar_def initialService_def Let_def
      mapGet_def mapDelete_def)

text \<open>
  C10. The OTP store is keyed by the target alone. When a code has been issued for a
  target with purpose \<open>p1\<close> and then another one for the same target with a different
  purpose \<open>p2\<close>, the one entry of the target holds the second code and purpose, and the
  first code no longer verifies for \<open>p1\<close> at any time, although it did before the second
  issue while it was live.
\<close>

theorem otp_keyed_by_target:
  assumes differ: "p1 \<noteq> p2"
    and issue1: "sendOTP r1 t1 target p1 s0 = (resp1, s1)"
    and issue2: "sendOTP r2 t2 target p2 s1 = (resp2, s2)"
  shows "mapGet (otpStore s2) target
           = Some \<lparr>otp = generateOTP r2, otpExpires = t2 + 300000, otpType = p2\<rparr>
       \<and> verifyOTP t3 target (the (respOtp resp1)) p1 s2 = (False, s2)
       \<and> (t3 \<le> t1 + 300000 \<longrightarrow> fst (verifyOTP t3 target (the (respOtp resp1)) p1 s1))"
proof -
  from issue1 have resp1: "respOtp resp1 = Some (generateOTP r1)"
    and e1: "mapGet (otpStore s1) target
               = Some \<lparr>otp = generateOTP r1, otpExpires = t1 + 300000, otpType = p1\<rparr>"
    by (auto simp: sendOTP_def Let_def mapGet_mapSet)
  from issue2 have e2: "mapGet (otpStore s2) target
               = Some \<lparr>otp = generateOTP r2, otpExpires = t2 + 300000, otpType = p2\<rparr>"
    by (auto simp: sendOTP_def Let_def mapGet_mapSet)
  from e2 differ have "verifyOTP t3 target (the (respOtp resp1)) p1 s2 = (False, s2)"
    by (auto simp: verifyOTP_def)
  moreover from e1 resp1
  have "t3 \<le> t1 + 300000 \<longrightarrow> fst (verifyOTP t3 target (the (respOtp resp1)) p1 s1)"
    by (simp add: verifyOTP_def)
  ultimately show ?thesis using e2 by simp
qed

theorem otp_keyed_by_target_witness:
  "RegisterOTP \<noteq> ResetOTP
   \<and> fst (verifyOTP 1500 ''a@x.com'' ''123456'' RegisterOTP
            (snd (sendOTP 23456 1000 ''a@x.com'' RegisterOTP initialService)))
   \<and> \<not> fst (verifyOTP 1500 ''a@x.com'' ''123456'' RegisterOTP
            (snd (sendOTP 555555 1200 ''a@x.com'' ResetOTP
               (snd (sendOTP 23456 1000 ''a@x.com'' RegisterOTP initialService)))))"
  using otp_keyed_by_target [of RegisterOTP ResetOTP 23456 1000 "''a@x.com''" initialService
      "fst (sendOTP 23456 1000 ''a@x.com'' RegisterOTP initialService)"
      "snd (sendOTP 23456 1000 ''a@x.com'' RegisterOTP initialService)"
      555555 1200
      "fst (sendOTP 555555 1200 ''a@x.com'' ResetOTP
               (snd (sendOTP 23456 1000 ''a@x.com'' RegisterOTP initialService)))"
      "snd (sendOTP 555555 1200 ''a@x.com'' ResetOTP
               (snd (sendOTP 23456 1000 ''a@x.com'' RegisterOTP initialService)))" 1500]
  by (simp add: sendOTP_def verifyOTP_def generateOTP_def digitChar_def initialService_def Let_def
      mapGet_def mapDelete_def)

section \<open>Frame of \<open>loadUsers\<close>\<close>

lemma fold_loadUser_frame:
  "otpStore (fold loadUser xs s) = otpStore s
   \<and> sessions (fold loadUser xs s) = sessions s
   \<and> fortas_users (fold loadUser xs s) = fortas_users s
   \<and> fortas_session_token (fold loadUser xs s) = fortas_session_token s
   \<and> heap (fold loadUser xs s) = heap s @ xs"
  by (induction xs arbitrary: s) (simp_all add: loadUser_def Let_def)

lemma loadUsers_frame [simp]:
  "otpStore (loadUsers s) = otpStore s"
  "sessions (loadUsers s) = sessions s"
  "fortas_users (loadUsers s) = fortas_users s"
  "fortas_session_token (loadUsers s) = fortas_session_token s"
  "heap (loadUsers s) = heap s @ fortas_users s"
  by (simp_all add: loadUsers_def fold_loadUser_frame)

lemma resolveKey_None_iff: "resolveKey key s = None \<longleftrightarrow> \<not> mapHas (users (loadUsers s)) key"
  by (simp add: resolveKey_def mapHas_def mapGet_def Let_def split: option.splits)

section \<open>What \<open>loadUsers\<close> does to the map\<close>

lemma keys_mapSet: "fst ` set (mapSet k v m) = insert k (fst ` set m)"
  by (simp add: dom_map_of_conv_image_fst [symmetric] map_of_mapSet)

lemma distinct_mapSet: "distinct (map fst m) \<Longrightarrow> distinct (map fst (mapSet k v m))"
  by (induction m) (auto simp: keys_mapSet)

lemma users_loadUser:
  "map_of (users (loadUser x s)) k
     = (if ownsKey k x then Some (length (heap s)) else map_of (users s) k)"
  by (auto simp: loadUser_def Let_def map_of_mapSet ownsKey_def)

lemma distinct_fold_loadUser:
  "distinct (map fst (users s)) \<Longrightarrow> distinct (map fst (users (fold loadUser xs s)))"
  by (induction xs arbitrary: s) (simp_all add: loadUser_def Let_def distinct_mapSet)

text \<open>
  A key owned by a stored user points, after the load, to the new object of the last such
  user of the array; any other key points where it did.
\<close>

lemma users_fold_loadUser:
  "case find (ownsKey k) (rev xs) of
     Some u \<Rightarrow> (\<exists>i<length xs. map_of (users (fold loadUser xs s)) k = Some (length (heap s) + i)
                    \<and> xs ! i = u)
   | None \<Rightarrow> map_of (users (fold loadUser xs s)) k = map_of (users s) k"
proof (induction xs rule: rev_induct)
  case Nil
  then show ?case by simp
next
  case (snoc x xs)
  show ?case
  proof (cases "ownsKey k x")
    case True
    then show ?thesis
      by (simp add: users_loadUser fold_loadUser_frame)
  next
    case False
    with snoc show ?thesis
      by (auto simp: users_loadUser fold_loadUser_frame nth_append split: option.splits)
  qed
qed

lemma resolveKey_eq:
  "resolveKey k s =
     (case find (ownsKey k) (rev (fortas_users s)) of
        Some u \<Rightarrow> Some u
      | None \<Rightarrow> (case map_of (users s) k of
                   None \<Rightarrow> None
                 | Some a \<Rightarrow> Some ((heap s @ fortas_users s) ! a)))"
  using users_fold_loadUser [where k = k and xs = "fortas_users s" and s = s]
  by (auto simp: resolveKey_def Let_def mapGet_def loadUsers_def fold_loadUser_frame
      split: option.splits)

section \<open>What \<open>saveUsers\<close> keeps\<close>

lemma findIndex_ge: "- 1 \<le> findIndex p xs"
  by (induction xs) (auto simp: Let_def)

lemma findIndex_eq_iff:
  "findIndex p xs = int i \<longleftrightarrow> i < length xs \<and> p (xs ! i) \<and> (\<forall>j<i. \<not> p (xs ! j))"
proof (induction xs arbitrary: i)
  case Nil
  then show ?case by simp
next
  case (Cons x xs)
  show ?case
  proof (cases "p x")
    case True
    then show ?thesis by (cases i) auto
  next
    case False
    show ?thesis
    proof (cases i)
      case 0
      with False findIndex_ge [of p xs] show ?thesis by (auto simp: Let_def)
    next
      case (Suc i')
      have "(\<forall>j<Suc i'. \<not> p ((x # xs) ! j)) \<longleftrightarrow> (\<forall>j<i'. \<not> p (xs ! j))"
        using False by (auto simp: less_Suc_eq_0_disj)
      with Suc False Cons.IH [of i'] show ?thesis
        by (auto simp: Let_def)
    qed
  qed
qed

lemma zip_upt_nth: "zip [0..<length arr] arr = map (\<lambda>i. (i, arr ! i)) [0..<length arr]"
  by (rule nth_equalityI) simp_all

lemma firstById_indices:
  "firstById arr =
     map ((!) arr) (filter (\<lambda>i. \<forall>j<i. uid (arr ! j) \<noteq> uid (arr ! i)) [0..<length arr])"
proof -
  have "filter (\<lambda>i. findIndex (\<lambda>u. uid u = uid (arr ! i)) arr = int i) [0..<length arr]
      = filter (\<lambda>i. \<forall>j<i. uid (arr ! j) \<noteq> uid (arr ! i)) [0..<length arr]"
    by (rule filter_cong) (auto simp: findIndex_eq_iff)
  then show ?thesis
    by (simp add: firstById_def zip_upt_nth filter_map o_def case_prod_unfold)
qed

lemma set_firstById_subset: "set (firstById arr) \<subseteq> set arr"
  by (auto simp: firstById_indices)

lemma firstById_covers:
  assumes "x \<in> set arr"
  shows "\<exists>y \<in> set (firstById arr). uid y = uid x"
proof -
  from assms have "\<exists>n. n < length arr \<and> uid (arr ! n) = uid x"
    by (auto simp: in_set_conv_nth)
  then obtain m where m: "m < length arr" "uid (arr ! m) = uid x"
    and least: "\<forall>j<m. \<not> (j < length arr \<and> uid (arr ! j) = uid x)"
    using exists_least_iff [of "\<lambda>n. n < length arr \<and> uid (arr ! n) = uid x"] by blast
  from m least have "\<forall>j<m. uid (arr ! j) \<noteq> uid (arr ! m)"
    by auto
  with m have "m \<in> set (filter (\<lambda>i. \<forall>j<i. uid (arr ! j) \<noteq> uid (arr ! i)) [0..<length arr])"
    by simp
  then have "arr ! m \<in> set (firstById arr)"
    unfolding firstById_indices set_map by (rule imageI)
  with m show ?thesis by blast
qed

lemma distinct_uid_firstById: "distinct (map uid (firstById arr))"
proof -
  have "inj_on (\<lambda>i. uid (arr ! i)) {i. i < length arr \<and> (\<forall>j<i. uid (arr ! j) \<noteq> uid (arr ! i))}"
  proof (rule inj_onI)
    fix a b
    assume a: "a \<in> {i. i < length arr \<and> (\<forall>j<i. uid (arr ! j) \<noteq> uid (arr ! i))}"
      and b: "b \<in> {i. i < length arr \<and> (\<forall>j<i. uid (arr ! j) \<noteq> uid (arr ! i))}"
      and eq: "uid (arr ! a) = uid (arr ! b)"
    show "a = b"
    proof (rule ccontr)
      assume "a \<noteq> b"
      then consider "a < b" | "b < a" by linarith
      then show False using a b eq by cases auto
    qed
  qed
  then show ?thesis
    by (simp add: firstById_indices distinct_map o_def)
qed

lemma set_firstById:
  assumes "\<forall>x \<in> set arr. \<forall>y \<in> set arr. uid x = uid y \<longrightarrow> x = y"
  shows "set (firstById arr) = set arr"
proof
  show "set (firstById arr) \<subseteq> set arr" by (rule set_firstById_subset)
  show "set arr \<subseteq> set (firstById arr)"
  proof
    fix x assume x: "x \<in> set arr"
    then obtain y where y: "y \<in> set (firstById arr)" "uid y = uid x"
      using firstById_covers by blast
    with set_firstById_subset have "y \<in> set arr" by blast
    with assms x y have "y = x" by blast
    with y show "x \<in> set (firstById arr)" by simp
  qed
qed

section \<open>The state of the examples\<close>

lemma ashaRegistered_eq:
  "ashaRegistered =
     \<lparr>heap = [\<lparr>uid = ''user_1000'', fullName = ''Asha'', email = ''a@x.com'',
                mobile = ''9990001111'', isAuthenticated = True, registrationDate = 1000,
                membershipType = Free, preferredRole = None, profilePicture = None,
                lastLoginDate = Some 1000,
                activityStats = Some \<lparr>totalChats = 0, filesUploaded = 0, reportsGenerated = 0\<rparr>,
                hashedPassword = hashPassword exampleDigest ''pw1'', settings = None\<rparr>],
      users = [(''a@x.com'', 0), (''9990001111'', 0)], otpStore = [], sessions = [],
      fortas_users = [\<lparr>uid = ''user_1000'', fullName = ''Asha'', email = ''a@x.com'',
                mobile = ''9990001111'', isAuthenticated = True, registrationDate = 1000,
                membershipType = Free, preferredRole = None, profilePicture = None,
                lastLoginDate = Some 1000,
                activityStats = Some \<lparr>totalChats = 0, filesUploaded = 0, reportsGenerated = 0\<rparr>,
                hashedPassword = hashPassword exampleDigest ''pw1'', settings = None\<rparr>],
      fortas_session_token = None\<rparr>"
  by (simp add: ashaRegistered_def asha_def register_def loadUsers_def initialService_def
      mapHas_def Let_def saveUsers_def firstById_def withPassword_def digitChar_def)

lemma example_hashes:
  "hashPassword exampleDigest ''pw1'' = ''70773173616c745f6b65795f32303234''"
  "hashPassword exampleDigest ''pw2'' = ''70773273616c745f6b65795f32303234''"
  by (simp_all add: hashPassword_def hexByte_def exampleDigest_def padStart_def digitChar_def
      Let_def)

section \<open>The credential hasher\<close>

lemma below_16_cases:
  "(n::nat) < 16 \<Longrightarrow> n \<in> {15, 14, 13, 12, 11, 10, 9, 8, 7, 6, 5, 4, 3, 2, 1, 0}"
  by simp arith

lemma digitChar_decode:
  "n < 16 \<Longrightarrow> (if (of_char (digitChar n) :: nat) < 58 then of_char (digitChar n) - 48
                 else of_char (digitChar n) - 87) = n"
  by (drule below_16_cases) (auto simp: digitChar_def)

lemma digitChar_inj:
  assumes "a < 16" and "b < 16" and "digitChar a = digitChar b"
  shows "a = b"
  using digitChar_decode [OF assms(1)] digitChar_decode [OF assms(2)]
  unfolding assms(3) by simp

lemma unat_byte_less: "unat (b :: 8 word) < 256"
  using unsigned_less [of b, where 'a = nat] by simp

lemma hexByte_digits: "hexByte b = [digitChar (unat b div 16), digitChar (unat b mod 16)]"
proof (cases "unat b < 16")
  case True
  then show ?thesis
    by (simp add: hexByte_def padStart_def digitChar_def)
next
  case False
  with unat_byte_less [of b] have "unat b div 16 < 16" by simp
  with False show ?thesis
    by (simp add: hexByte_def padStart_def)
qed

lemma hexByte_inj:
  assumes "hexByte a = hexByte b"
  shows "a = b"
proof -
  from assms have "digitChar (unat a div 16) = digitChar (unat b div 16)"
    and "digitChar (unat a mod 16) = digitChar (unat b mod 16)"
    by (simp_all add: hexByte_digits)
  with unat_byte_less [of a] unat_byte_less [of b]
  have "unat a div 16 = unat b div 16" and "unat a mod 16 = unat b mod 16"
    by (auto intro!: digitChar_inj)
  then have "unat a = unat b"
    by (metis div_mult_mod_eq)
  then show "a = b" by (simp add: word_unat_eq_iff)
qed

lemma hex_inj: "concat (map hexByte xs) = concat (map hexByte ys) \<Longrightarrow> xs = ys"
proof (induction xs arbitrary: ys)
  case Nil
  then show ?case by (cases ys) (auto simp: hexByte_digits)
next
  case (Cons x xs)
  show ?case
  proof (cases ys)
    case Nil
    with Cons.prems show ?thesis by (simp add: hexByte_digits)
  next
    case (Cons y ys')
    with Cons.prems
    have "hexByte x @ concat (map hexByte xs) = hexByte y @ concat (map hexByte ys')"
      by simp
    moreover have "length (hexByte x) = length (hexByte y)"
      by (simp add: hexByte_digits)
    ultimately have "hexByte x = hexByte y"
      and "concat (map hexByte xs) = concat (map hexByte ys')"
      by simp_all
    with Cons.IH [of ys'] hexByte_inj [of x y] Cons show ?thesis by simp
  qed
qed

lemma hashPassword_eq_iff:
  "hashPassword sha a = hashPassword sha b
     \<longleftrightarrow> sha (a @ ''salt_key_2024'') = sha (b @ ''salt_key_2024'')"
  using hex_inj [of "sha (a @ ''salt_key_2024'')" "sha (b @ ''salt_key_2024'')"]
  by (auto simp: hashPassword_def)

text \<open>
  C9. The credential hasher round-trips. \<open>hashPassword\<close> depends on nothing but the
  secret (and the platform digest): no state, clock or random draw enters it.
  \<open>verifyPassword\<close> of a secret against its own hash is true; \<open>verifyPassword\<close> is a
  total boolean, true exactly when the hash of the secret is the given digest, so a
  mismatch is the value false; and since the hexadecimal encoding loses nothing, another
  secret verifies against the hash exactly when the platform digests of the two salted
  texts are equal.
\<close>

theorem hasher_round_trip:
  "verifyPassword sha secret (hashPassword sha secret)
   \<and> verifyPassword sha secret digest = (hashPassword sha secret = digest)
   \<and> verifyPassword sha other (hashPassword sha secret)
       = (sha (other @ ''salt_key_2024'') = sha (secret @ ''salt_key_2024''))"
  by (simp add: verifyPassword_def hashPassword_eq_iff)

section \<open>Sessions created by \<open>login\<close>\<close>

lemma generateSessionToken_nonempty: "generateSessionToken rnd now \<noteq> []"
  by (simp add: generateSessionToken_def)

text \<open>
  The expiry that \<open>login\<close> computes, where the page has a global named \<open>rememberMe\<close>:
  a login that returns a user had the identifier bound, and its session is valid at a
  time \<open>t\<close> exactly when \<open>t\<close> is before the creation time plus 24 hours (86400000 ms) for
  a false global, plus 30 days (2592000000 ms) for a true one. This is the arithmetic of
  the two branches of line 480; it says nothing of a page without that global.
\<close>

lemma session_ttl_bound:
  assumes ok: "login sha rememberMe rnd now credentials s0 = (Returned (Some user), s)"
  shows "rememberMe \<noteq> None
       \<and> isSessionValid now s
       \<and> (rememberMe = Some False \<longrightarrow> (\<forall>t. isSessionValid t s \<longleftrightarrow> t < now + 86400000))
       \<and> (rememberMe = Some True \<longrightarrow> (\<forall>t. isSessionValid t s \<longleftrightarrow> t < now + 2592000000))"
proof -
  from ok obtain remember s1 where rm: "rememberMe = Some remember"
    and s: "s = s1\<lparr>sessions := mapSet (generateSessionToken rnd now)
                     \<lparr>userId = uid (heap s1 ! the (mapGet (users (loadUsers s0))
                                                     (emailOrMobile credentials))),
                        expires = (if remember then now + 30 * 24 * 60 * 60 * 1000
                                   else now + 24 * 60 * 60 * 1000)\<rparr> (sessions s1),
                   fortas_session_token := Some (generateSessionToken rnd now)\<rparr>"
    by (auto simp: login_def Let_def split: option.splits if_splits)
  have valid: "isSessionValid t s \<longleftrightarrow>
      t < (if remember then now + 30 * 24 * 60 * 60 * 1000 else now + 24 * 60 * 60 * 1000)" for t
    by (simp add: s isSessionValid_def generateSessionToken_nonempty mapGet_mapSet)
  show ?thesis
    using rm by (auto simp: valid)
qed

lemmas eval_defs = loadUsers_def loadUser_def saveUsers_def firstById_def mapGet_def mapHas_def
  verifyPassword_def Let_def toUser_def generateSessionToken_def digitChar_def

lemma session_ttl_bound_example:
  "(let r = login exampleDigest (Some False) ''k3j2'' 5000
              \<lparr>emailOrMobile = ''a@x.com'', password = ''pw1''\<rparr> ashaRegistered;
        r' = login exampleDigest (Some True) ''k3j2'' 5000
              \<lparr>emailOrMobile = ''9990001111'', password = ''pw1''\<rparr> ashaRegistered
    in fst r = Returned (Some (toUser (heap (snd r) ! 1)))
       \<and> fortas_session_token (snd r) = Some ''k3j23uw''
       \<and> isSessionValid 5000 (snd r) \<and> isSessionValid 86404999 (snd r)
       \<and> \<not> isSessionValid 86405000 (snd r)
       \<and> fst r' = Returned (Some (toUser (heap (snd r') ! 1)))
       \<and> isSessionValid 86405000 (snd r') \<and> isSessionValid 2592004999 (snd r')
       \<and> \<not> isSessionValid 2592005000 (snd r'))"
proof -
  define r where "r = login exampleDigest (Some False) ''k3j2'' 5000
              \<lparr>emailOrMobile = ''a@x.com'', password = ''pw1''\<rparr> ashaRegistered"
  define r' where "r' = login exampleDigest (Some True) ''k3j2'' 5000
              \<lparr>emailOrMobile = ''9990001111'', password = ''pw1''\<rparr> ashaRegistered"
  have okf: "fst r = Returned (Some (toUser (heap (snd r) ! 1)))"
    by (simp add: r_def login_def ashaRegistered_eq eval_defs)
  have okf': "fst r' = Returned (Some (toUser (heap (snd r') ! 1)))"
    by (simp add: r'_def login_def ashaRegistered_eq eval_defs)
  have ok: "login exampleDigest (Some False) ''k3j2'' 5000
              \<lparr>emailOrMobile = ''a@x.com'', password = ''pw1''\<rparr> ashaRegistered
            = (Returned (Some (toUser (heap (snd r) ! 1))), snd r)"
    using okf by (simp add: r_def prod_eq_iff)
  have ok': "login exampleDigest (Some True) ''k3j2'' 5000
              \<lparr>emailOrMobile = ''9990001111'', password = ''pw1''\<rparr> ashaRegistered
            = (Returned (Some (toUser (heap (snd r') ! 1))), snd r')"
    using okf' by (simp add: r'_def prod_eq_iff)
  have tok: "fortas_session_token (snd r) = Some ''k3j23uw''"
    by (simp add: r_def login_def ashaRegistered_eq eval_defs)
  from session_ttl_bound [OF ok] session_ttl_bound [OF ok'] tok okf okf' show ?thesis
    by (simp add: r_def [symmetric] r'_def [symmetric])
qed

lemma saveUsers_frame:
  "sessions (saveUsers s) = sessions s"
  "fortas_session_token (saveUsers s) = fortas_session_token s"
  by (simp_all add: saveUsers_def Let_def)

text \<open>
  With no global \<open>rememberMe\<close>, \<open>login\<close> never returns a user and never touches the
  sessions or the session token, whatever the state and the credentials: the session is
  as valid after the call as it was before.
\<close>

lemma login_unbound_no_session:
  "fst (login sha None rnd now credentials s) \<noteq> Returned (Some user)
   \<and> sessions (snd (login sha None rnd now credentials s)) = sessions s
   \<and> fortas_session_token (snd (login sha None rnd now credentials s)) = fortas_session_token s
   \<and> isSessionValid t (snd (login sha None rnd now credentials s)) = isSessionValid t s"
  by (simp add: login_def Let_def saveUsers_frame isSessionValid_def split: option.splits)

text \<open>
  C2. The session of a login, on the code. Asha is registered and logs in with her email
  and her password: the password verifies and the login date is saved, and then the
  evaluation of \<open>rememberMe\<close>, which \<open>login\<close> does not declare and no caller binds,
  raises a ReferenceError. No session is created and no session token is stored, so
  \<open>isSessionValid\<close> is false at the very time of the login, where a session valid for
  24 hours, or for 30 days with \<open>rememberMe\<close>, was to be.
\<close>

theorem login_creates_no_session:
  "(let r = login exampleDigest None ''k3j2'' 5000
              \<lparr>emailOrMobile = ''a@x.com'', password = ''pw1''\<rparr> ashaRegistered
    in resolveKey ''a@x.com'' ashaRegistered = Some (heap ashaRegistered ! 0)
       \<and> verifyPassword exampleDigest ''pw1'' (hashedPassword (heap ashaRegistered ! 0))
       \<and> fst r = Raised (ReferenceError ''rememberMe is not defined'')
       \<and> map lastLoginDate (fortas_users (snd r)) = [Some 5000]
       \<and> sessions (snd r) = []
       \<and> fortas_session_token (snd r) = None
       \<and> \<not> isSessionValid 5000 (snd r))"
  by (simp add: login_def resolveKey_def isSessionValid_def ashaRegistered_eq eval_defs)

text \<open>
  C5. A login reveals nothing about the existence of an account. When no user resolves
  for the identifier in one state, and in another state a user resolves but the hash of
  the password is not the stored one, \<open>login\<close> returns the same value \<open>null\<close> in both,
  and in both it leaves the state as \<open>loadUsers\<close> alone leaves it: no session, no
  session token, nothing saved.
\<close>

theorem login_no_existence_leak:
  assumes absent: "resolveKey (emailOrMobile credentials) sA = None"
    and present: "resolveKey (emailOrMobile credentials) sB = Some user"
    and mismatch: "\<not> verifyPassword sha (password credentials) (hashedPassword user)"
  shows "login sha rememberMe rnd now credentials sA = (Returned None, loadUsers sA)
       \<and> login sha rememberMe rnd now credentials sB = (Returned None, loadUsers sB)"
  using assms by (auto simp: login_def resolveKey_def Let_def split: option.splits)

theorem login_no_existence_leak_witness:
  "resolveKey ''a@x.com'' initialService = None
   \<and> resolveKey ''a@x.com'' ashaRegistered = Some (heap ashaRegistered ! 0)
   \<and> \<not> verifyPassword exampleDigest ''pw2'' (hashedPassword (heap ashaRegistered ! 0))
   \<and> fst (login exampleDigest (Some False) ''k3j2'' 5000
            \<lparr>emailOrMobile = ''a@x.com'', password = ''pw2''\<rparr> initialService) = Returned None
   \<and> fst (login exampleDigest (Some False) ''k3j2'' 5000
            \<lparr>emailOrMobile = ''a@x.com'', password = ''pw2''\<rparr> ashaRegistered) = Returned None"
proof -
  have absent: "resolveKey (emailOrMobile \<lparr>emailOrMobile = ''a@x.com'', password = ''pw2''\<rparr>)
                  initialService = None"
    by (simp add: resolveKey_def initialService_def eval_defs)
  have present: "resolveKey (emailOrMobile \<lparr>emailOrMobile = ''a@x.com'', password = ''pw2''\<rparr>)
                  ashaRegistered = Some (heap ashaRegistered ! 0)"
    by (simp add: resolveKey_def ashaRegistered_eq eval_defs)
  have mismatch: "\<not> verifyPassword exampleDigest
                     (password \<lparr>emailOrMobile = ''a@x.com'', password = ''pw2''\<rparr>)
                     (hashedPassword (heap ashaRegistered ! 0))"
    by (simp add: ashaRegistered_eq verifyPassword_def example_hashes)
  from login_no_existence_leak [OF absent present mismatch, of "Some False" "''k3j2''" 5000]
    absent present mismatch
  show ?thesis by simp
qed

text \<open>
  C4 (as the code has it). Of the expected business outcomes, a duplicate identity makes
  \<open>register\<close> raise an \<open>Error\<close>; the others are returned as values: \<open>login\<close> returns
  \<open>null\<close> for an unknown identifier or a wrong password, and \<open>verifyOTP\<close> and
  \<open>resetPassword\<close> return false for an expired OTP.
\<close>

theorem expected_failures:
  "(resolveKey (reg_email userData) s \<noteq> None \<or> resolveKey (reg_mobile userData) s \<noteq> None
      \<longrightarrow> fst (register sha now userData s)
            = Raised (Error ''User already exists with this email or mobile number''))
   \<and> (resolveKey (emailOrMobile credentials) s = None
        \<or> (\<exists>user. resolveKey (emailOrMobile credentials) s = Some user
              \<and> \<not> verifyPassword sha (password credentials) (hashedPassword user))
      \<longrightarrow> fst (login sha rememberMe rnd now credentials s) = Returned None)
   \<and> ((\<exists>stored. mapGet (otpStore s) target = Some stored \<and> otpExpires stored < now)
      \<longrightarrow> fst (verifyOTP now target code purpose s) = False
        \<and> (rst_email resetData = target
             \<longrightarrow> fst (resetPassword sha now resetData s) = False))"
  by (auto simp: register_def login_def verifyOTP_def resetPassword_def resolveKey_def
      mapHas_def mapGet_def Let_def split: option.splits prod.splits)

theorem register_duplicate_raises:
  "resolveKey (reg_email asha) ashaRegistered \<noteq> None
   \<and> fst (register exampleDigest 2000 asha ashaRegistered)
       = Raised (Error ''User already exists with this email or mobile number'')"
  by (simp add: resolveKey_def register_def asha_def ashaRegistered_eq eval_defs)

theorem expected_failures_witness:
  "(let s = snd (sendOTP 23456 2000 ''a@x.com'' ResetOTP ashaRegistered)
    in resolveKey ''a@x.com'' s \<noteq> None
       \<and> fst (register exampleDigest 400000 asha s)
           = Raised (Error ''User already exists with this email or mobile number'')
       \<and> resolveKey ''b@x.com'' s = None
       \<and> fst (login exampleDigest None ''k3j2'' 400000
                \<lparr>emailOrMobile = ''b@x.com'', password = ''pw1''\<rparr> s) = Returned None
       \<and> mapGet (otpStore s) ''a@x.com''
           = Some \<lparr>otp = ''123456'', otpExpires = 302000, otpType = ResetOTP\<rparr>
       \<and> fst (verifyOTP 400000 ''a@x.com'' ''123456'' ResetOTP s) = False
       \<and> fst (resetPassword exampleDigest 400000
                \<lparr>rst_email = ''a@x.com'', newPassword = ''pw2'', rst_otp = ''123456''\<rparr> s) = False)"
proof -
  define s where "s = snd (sendOTP 23456 2000 ''a@x.com'' ResetOTP ashaRegistered)"
  have dup: "resolveKey (reg_email asha) s \<noteq> None"
    by (simp add: s_def sendOTP_def resolveKey_def asha_def ashaRegistered_eq eval_defs)
  have unknown: "resolveKey (emailOrMobile \<lparr>emailOrMobile = ''b@x.com'', password = ''pw1''\<rparr>) s
                   = None"
    by (simp add: s_def sendOTP_def resolveKey_def ashaRegistered_eq eval_defs)
  have entry: "mapGet (otpStore s) ''a@x.com''
                 = Some \<lparr>otp = ''123456'', otpExpires = 302000, otpType = ResetOTP\<rparr>"
    by (simp add: s_def sendOTP_def generateOTP_def ashaRegistered_eq eval_defs)
  from expected_failures [where userData = asha and s = s and sha = exampleDigest
      and now = 400000 and rememberMe = None and rnd = "''k3j2''"
      and credentials = "\<lparr>emailOrMobile = ''b@x.com'', password = ''pw1''\<rparr>"
      and target = "''a@x.com''" and code = "''123456''" and purpose = ResetOTP
      and resetData = "\<lparr>rst_email = ''a@x.com'', newPassword = ''pw2'', rst_otp = ''123456''\<rparr>"]
    dup unknown entry
  show ?thesis
    by (simp add: s_def [symmetric] asha_def)
qed

section \<open>The map of a consistent store after \<open>loadUsers\<close>\<close>

lemma distinct_uid_eq:
  assumes "distinct (map uid xs)" and "x \<in> set xs" and "y \<in> set xs" and "uid x = uid y"
  shows "x = y"
proof -
  from assms(1) have "inj_on uid (set xs)" by (simp add: distinct_map)
  then show ?thesis using assms(4,2,3) by (rule inj_onD)
qed

lemma find_unique:
  assumes "x \<in> set xs" and "P x" and "\<forall>y \<in> set xs. P y \<longrightarrow> y = x"
  shows "find P xs = Some x"
proof -
  from assms(1,2) have "find P xs \<noteq> None"
    by (auto simp: find_None_iff)
  then obtain y where y: "find P xs = Some y" by auto
  then have "y \<in> set xs" and "P y"
    by (auto simp: find_Some_iff)
  with assms(3) y show ?thesis by simp
qed

lemma consistent_keys: "consistent s \<Longrightarrow> distinct (map fst (users s))"
  by (simp add: consistent_def)

lemma consistent_owned:
  "consistent s \<Longrightarrow> k \<in> fst ` set (users s) \<Longrightarrow> \<exists>u \<in> set (fortas_users s). ownsKey k u"
  by (auto simp: consistent_def)

lemma consistent_ids: "consistent s \<Longrightarrow> distinct (map uid (fortas_users s))"
  by (simp add: consistent_def)

lemma consistent_owner:
  assumes cons: "consistent s" and u: "u \<in> set (fortas_users s)"
    and v: "v \<in> set (fortas_users s)" and ku: "ownsKey k u" and kv: "ownsKey k v"
  shows "u = v"
proof -
  from ku kv have "ownsKey (email u) v \<or> ownsKey (mobile u) v"
    by (auto simp: ownsKey_def)
  moreover from cons have "\<forall>u \<in> set (fortas_users s). \<forall>v \<in> set (fortas_users s).
         ownsKey (email u) v \<or> ownsKey (mobile u) v \<longrightarrow> u = v"
    by (simp add: consistent_def)
  ultimately show ?thesis using u v by blast
qed

lemma loaded_owner:
  assumes cons: "consistent s" and i: "i < length (fortas_users s)"
    and own: "ownsKey k (fortas_users s ! i)"
  shows "map_of (users (loadUsers s)) k = Some (length (heap s) + i)"
proof -
  let ?xs = "fortas_users s"
  from i have mem: "?xs ! i \<in> set ?xs" by simp
  have uniq: "\<forall>v \<in> set (rev ?xs). ownsKey k v \<longrightarrow> v = ?xs ! i"
  proof (intro ballI impI)
    fix v assume "v \<in> set (rev ?xs)" and kv: "ownsKey k v"
    then have "v \<in> set ?xs" by simp
    from consistent_owner [OF cons mem this own kv] show "v = ?xs ! i" by simp
  qed
  from mem have "?xs ! i \<in> set (rev ?xs)" by simp
  then have "find (ownsKey k) (rev ?xs) = Some (?xs ! i)"
    using own uniq by (rule find_unique)
  with users_fold_loadUser [where k = k and xs = ?xs and s = s]
  obtain j where j: "j < length ?xs"
    "map_of (users (fold loadUser ?xs s)) k = Some (length (heap s) + j)" "?xs ! j = ?xs ! i"
    by auto
  from consistent_ids [OF cons] have "distinct ?xs"
    by (simp add: distinct_map)
  with j i have "j = i" by (simp add: nth_eq_iff_index_eq)
  with j show ?thesis by (simp add: loadUsers_def)
qed

lemma loaded_entries:
  assumes cons: "consistent s" and mem: "(k, a) \<in> set (users (loadUsers s))"
  shows "\<exists>i<length (fortas_users s). a = length (heap s) + i \<and> ownsKey k (fortas_users s ! i)"
proof -
  let ?xs = "fortas_users s"
  from consistent_keys [OF cons] have "distinct (map fst (users (loadUsers s)))"
    by (simp add: loadUsers_def distinct_fold_loadUser)
  with mem have a: "map_of (users (fold loadUser ?xs s)) k = Some a"
    by (simp add: loadUsers_def)
  show ?thesis
  proof (cases "find (ownsKey k) (rev ?xs)")
    case None
    with users_fold_loadUser [where k = k and xs = ?xs and s = s] a
    have "map_of (users s) k = Some a" by simp
    then have "(k, a) \<in> set (users s)" by (rule map_of_SomeD)
    then have "k \<in> fst ` set (users s)" by (rule rev_image_eqI) simp
    from consistent_owned [OF cons this] obtain u where "u \<in> set ?xs" "ownsKey k u"
      by blast
    with None show ?thesis by (simp add: find_None_iff)
  next
    case (Some u)
    then have "ownsKey k u" by (auto simp: find_Some_iff)
    with Some users_fold_loadUser [where k = k and xs = ?xs and s = s] a
    show ?thesis by auto
  qed
qed

section \<open>Registrations and consistency\<close>

text \<open>
  A registration keeps the store consistent when its id \<^verbatim>\<open>user_<Date.now()>\<close> is new
  (two registrations in one millisecond get the same id).
\<close>

lemma register_consistent:
  assumes cons: "consistent s"
    and ok: "fst (register sha now userData s) \<noteq>
               Raised (Error ''User already exists with this email or mobile number'')"
    and new_id: "\<forall>v \<in> set (fortas_users s). uid v \<noteq> ''user_'' @ toStringRadix 10 now"
  shows "consistent (snd (register sha now userData s))"
proof -
  let ?xs = "fortas_users s"
  let ?base = "length (heap s)"
  let ?s1 = "loadUsers s"
  let ?e = "reg_email userData"
  let ?m = "reg_mobile userData"
  let ?a = "?base + length ?xs"
  define n where "n = withPassword
      \<lparr>uid = ''user_'' @ toStringRadix 10 now, fullName = reg_fullName userData,
        email = ?e, mobile = ?m, isAuthenticated = True, registrationDate = now,
        membershipType = Free, preferredRole = None, profilePicture = None,
        lastLoginDate = Some now,
        activityStats = Some \<lparr>totalChats = 0, filesUploaded = 0, reportsGenerated = 0\<rparr>\<rparr>
      (hashPassword sha (reg_password userData))"
  define s' where "s' = snd (register sha now userData s)"
  let ?users2 = "mapSet ?m ?a (mapSet ?e ?a (users ?s1))"
  let ?heap2 = "heap s @ ?xs @ [n]"
  let ?arr = "map (\<lambda>kv. ?heap2 ! snd kv) ?users2"
  have n_fields: "uid n = ''user_'' @ toStringRadix 10 now" "email n = ?e" "mobile n = ?m"
    by (simp_all add: n_def withPassword_def)
  from ok have free: "\<not> mapHas (users ?s1) ?e" "\<not> mapHas (users ?s1) ?m"
    by (auto simp: register_def Let_def split: if_splits)
  then have s': "s' = saveUsers (?s1\<lparr>heap := ?heap2, users := ?users2\<rparr>)"
    by (simp add: s'_def register_def Let_def n_def)
  have users': "users s' = ?users2" and stored': "fortas_users s' = firstById ?arr"
    by (simp_all add: s' saveUsers_def Let_def)
  have not_owned: "\<not> ownsKey k v" if "v \<in> set ?xs" "k = ?e \<or> k = ?m" for k v
  proof
    assume own: "ownsKey k v"
    from that(1) obtain i where "i < length ?xs" "?xs ! i = v"
      by (auto simp: in_set_conv_nth)
    with loaded_owner [OF cons, of i k] own have "map_of (users ?s1) k \<noteq> None" by simp
    with free that(2) show False by (auto simp: mapHas_def)
  qed
  have old_cell: "?heap2 ! (?base + i) = ?xs ! i" if "i < length ?xs" for i
    using that by (simp add: nth_append)
  have new_cell: "?heap2 ! ?a = n"
    by (simp add: nth_append)
  have entries2: "(k, a) \<in> set ?users2 \<Longrightarrow>
      (a = ?a \<and> (k = ?e \<or> k = ?m)) \<or> ((k, a) \<in> set (users ?s1) \<and> k \<noteq> ?e \<and> k \<noteq> ?m)" for k a
  proof -
    assume mem: "(k, a) \<in> set ?users2"
    from consistent_keys [OF cons] have d1: "distinct (map fst (users ?s1))"
      by (simp add: loadUsers_def distinct_fold_loadUser)
    then have "distinct (map fst ?users2)" by (intro distinct_mapSet)
    with mem have "map_of ?users2 k = Some a" by simp
    then have "(if k = ?m then Some ?a else if k = ?e then Some ?a else map_of (users ?s1) k) = Some a"
      by (auto simp: map_of_mapSet split: if_splits)
    then show ?thesis
      by (auto split: if_splits dest: map_of_SomeD)
  qed
  have arr: "set ?arr = insert n (set ?xs)"
  proof (intro set_eqI iffI)
    fix x assume "x \<in> set ?arr"
    then obtain k a where mem: "(k, a) \<in> set ?users2" and x: "x = ?heap2 ! a" by auto
    from entries2 [OF mem] show "x \<in> insert n (set ?xs)"
    proof
      assume "a = ?a \<and> (k = ?e \<or> k = ?m)"
      with x new_cell show ?thesis by simp
    next
      assume "(k, a) \<in> set (users ?s1) \<and> k \<noteq> ?e \<and> k \<noteq> ?m"
      with loaded_entries [OF cons, of k a] obtain i where "i < length ?xs" "a = ?base + i"
        by blast
      with x old_cell [of i] show ?thesis by simp
    qed
  next
    fix x assume x: "x \<in> insert n (set ?xs)"
    have m_in: "(?m, ?a) \<in> set ?users2"
      by (rule map_of_SomeD) (simp add: map_of_mapSet)
    show "x \<in> set ?arr"
    proof (cases "x \<in> set ?xs")
      case False
      with x have "x = n" by simp
      with m_in new_cell show ?thesis by (auto intro!: rev_image_eqI)
    next
      case True
      then obtain i where i: "i < length ?xs" "?xs ! i = x"
        by (auto simp: in_set_conv_nth)
      from not_owned [OF True] have ne: "email x \<noteq> ?e" "email x \<noteq> ?m"
        by (auto simp: ownsKey_def)
      from loaded_owner [OF cons i(1), of "email x"] i
      have "map_of (users ?s1) (email x) = Some (?base + i)" by (simp add: ownsKey_def)
      with ne have "map_of ?users2 (email x) = Some (?base + i)"
        by (simp add: map_of_mapSet)
      then have "(email x, ?base + i) \<in> set ?users2" by (rule map_of_SomeD)
      with old_cell [OF i(1)] i show ?thesis by (auto intro!: rev_image_eqI)
    qed
  qed
  have "\<forall>x \<in> set ?arr. \<forall>y \<in> set ?arr. uid x = uid y \<longrightarrow> x = y"
  proof (intro ballI impI)
    fix x y assume "x \<in> set ?arr" and "y \<in> set ?arr" and eq: "uid x = uid y"
    then have x: "x = n \<or> x \<in> set ?xs" and y: "y = n \<or> y \<in> set ?xs"
      unfolding arr by simp_all
    have fresh: "uid v \<noteq> uid n" if "v \<in> set ?xs" for v
      using that new_id by (simp add: n_fields)
    from x y eq fresh distinct_uid_eq [OF consistent_ids [OF cons], of x y]
    show "x = y" by metis
  qed
  then have "set (firstById ?arr) = set ?arr" by (rule set_firstById)
  with arr stored' have stored: "set (fortas_users s') = insert n (set ?xs)" by simp
  have c1: "distinct (map fst (users s'))"
    unfolding users' using consistent_keys [OF cons]
    by (intro distinct_mapSet) (simp add: loadUsers_def distinct_fold_loadUser)
  have c2: "\<forall>k \<in> fst ` set (users s'). \<exists>u \<in> set (fortas_users s'). ownsKey k u"
  proof
    fix k assume "k \<in> fst ` set (users s')"
    then obtain a where "(k, a) \<in> set ?users2" unfolding users' by auto
    from entries2 [OF this] show "\<exists>u \<in> set (fortas_users s'). ownsKey k u"
    proof
      assume "a = ?a \<and> (k = ?e \<or> k = ?m)"
      then have "ownsKey k n" by (auto simp: ownsKey_def n_fields)
      then show ?thesis unfolding stored by blast
    next
      assume "(k, a) \<in> set (users ?s1) \<and> k \<noteq> ?e \<and> k \<noteq> ?m"
      with loaded_entries [OF cons, of k a] obtain i
        where "i < length ?xs" "ownsKey k (?xs ! i)" by blast
      then have "?xs ! i \<in> set ?xs" "ownsKey k (?xs ! i)" by simp_all
      then show ?thesis unfolding stored by blast
    qed
  qed
  have c3: "distinct (map uid (fortas_users s'))"
    unfolding stored' by (rule distinct_uid_firstById)
  have c4: "\<forall>u \<in> set (fortas_users s'). \<forall>v \<in> set (fortas_users s').
         ownsKey (email u) v \<or> ownsKey (mobile u) v \<longrightarrow> u = v"
  proof (intro ballI impI)
    fix u v assume u: "u \<in> set (fortas_users s')" and v: "v \<in> set (fortas_users s')"
      and own: "ownsKey (email u) v \<or> ownsKey (mobile u) v"
    have own_u: "ownsKey (email u) u" "ownsKey (mobile u) u"
      by (simp_all add: ownsKey_def)
    show "u = v"
    proof (cases "u = n")
      case True
      show ?thesis
      proof (cases "v = n")
        case False
        with v have "v \<in> set ?xs" by (simp add: stored)
        from not_owned [OF this, of ?e] not_owned [OF this, of ?m]
        have "\<not> ownsKey ?e v" "\<not> ownsKey ?m v" by simp_all
        with own True show ?thesis by (simp add: n_fields)
      qed (simp add: True)
    next
      case False
      with u have ux: "u \<in> set ?xs" by (simp add: stored)
      show ?thesis
      proof (cases "v = n")
        case True
        from not_owned [OF ux, of ?e] not_owned [OF ux, of ?m]
        have "email u \<noteq> ?e" "mobile u \<noteq> ?e" "email u \<noteq> ?m" "mobile u \<noteq> ?m"
          by (simp_all add: ownsKey_def)
        with own True show ?thesis by (simp add: ownsKey_def n_fields)
      next
        case False
        with v have vx: "v \<in> set ?xs" by (simp add: stored)
        from own show ?thesis
        proof
          assume "ownsKey (email u) v"
          with consistent_owner [OF cons ux vx own_u(1)] show ?thesis by simp
        next
          assume "ownsKey (mobile u) v"
          with consistent_owner [OF cons ux vx own_u(2)] show ?thesis by simp
        qed
      qed
    qed
  qed
  from c1 c2 c3 c4 show ?thesis
    unfolding s'_def [symmetric] consistent_def by blast
qed

section \<open>\<open>updateProfile\<close> on a consistent store\<close>




lemma consistent_initialService: "consistent initialService"
  by (simp add: consistent_def initialService_def)






section \<open>A failed registration\<close>

lemma resolveKey_loadUsers:
  assumes valid: "\<forall>a \<in> snd ` set (users s). a < length (heap s)"
  shows "resolveKey k (loadUsers s) = resolveKey k s"
proof (cases "find (ownsKey k) (rev (fortas_users s))")
  case (Some u)
  then show ?thesis by (simp add: resolveKey_eq)
next
  case None
  with users_fold_loadUser [where k = k and xs = "fortas_users s" and s = s]
  have same: "map_of (users (loadUsers s)) k = map_of (users s) k"
    by (simp add: loadUsers_def)
  show ?thesis
  proof (cases "map_of (users s) k")
    case None
    with same \<open>find (ownsKey k) (rev (fortas_users s)) = None\<close> show ?thesis
      by (simp add: resolveKey_eq)
  next
    case (Some a)
    then have "(k, a) \<in> set (users s)" by (rule map_of_SomeD)
    then have "a \<in> snd ` set (users s)" by (rule rev_image_eqI) simp
    with valid have "a < length (heap s)" by blast
    with Some same \<open>find (ownsKey k) (rev (fortas_users s)) = None\<close> show ?thesis
      by (simp add: resolveKey_eq nth_append)
  qed
qed

text \<open>
  C3. A registration whose email or mobile already resolves to a record fails: \<open>register\<close>
  raises the error of the duplicate identity, and the stored collection of users is what
  it was, with the same records in the same number. The state after the failed attempt is
  the one that \<open>loadUsers\<close> alone produces, and (the references of the map being objects
  of the heap) every key resolves after the attempt as it did before.
\<close>

theorem register_duplicate_unchanged:
  assumes dup: "resolveKey (reg_email userData) s \<noteq> None
              \<or> resolveKey (reg_mobile userData) s \<noteq> None"
  shows "register sha now userData s
           = (Raised (Error ''User already exists with this email or mobile number''),
              loadUsers s)
       \<and> fortas_users (snd (register sha now userData s)) = fortas_users s
       \<and> length (fortas_users (snd (register sha now userData s))) = length (fortas_users s)
       \<and> ((\<forall>a \<in> snd ` set (users s). a < length (heap s))
            \<longrightarrow> (\<forall>k. resolveKey k (snd (register sha now userData s)) = resolveKey k s))"
proof -
  from dup have "register sha now userData s
      = (Raised (Error ''User already exists with this email or mobile number''), loadUsers s)"
    by (auto simp: register_def resolveKey_None_iff Let_def)
  then show ?thesis
    by (simp add: resolveKey_loadUsers)
qed

theorem register_duplicate_unchanged_witness:
  "resolveKey (reg_email asha) ashaRegistered \<noteq> None
   \<and> fst (register exampleDigest 2000 asha ashaRegistered)
       = Raised (Error ''User already exists with this email or mobile number'')
   \<and> fortas_users (snd (register exampleDigest 2000 asha ashaRegistered))
       = fortas_users ashaRegistered
   \<and> length (fortas_users (snd (register exampleDigest 2000 asha ashaRegistered))) = 1
   \<and> map snd (users ashaRegistered) = [0, 0] \<and> length (heap ashaRegistered) = 1
   \<and> resolveKey ''9990001111'' (snd (register exampleDigest 2000 asha ashaRegistered))
       = resolveKey ''9990001111'' ashaRegistered"
proof -
  have dup: "resolveKey (reg_email asha) ashaRegistered \<noteq> None"
    by (simp add: resolveKey_def asha_def ashaRegistered_eq eval_defs)
  have valid: "\<forall>a \<in> snd ` set (users ashaRegistered). a < length (heap ashaRegistered)"
    by (simp add: ashaRegistered_eq)
  have len: "length (fortas_users ashaRegistered) = 1"
    by (simp add: ashaRegistered_eq)
  note r = register_duplicate_unchanged [of asha ashaRegistered exampleDigest 2000,
      OF disjI1, OF dup]
  from r valid
  have "\<forall>k. resolveKey k (snd (register exampleDigest 2000 asha ashaRegistered))
           = resolveKey k ashaRegistered"
    by blast
  then have "resolveKey ''9990001111'' (snd (register exampleDigest 2000 asha ashaRegistered))
           = resolveKey ''9990001111'' ashaRegistered"
    by blast
  moreover have "map snd (users ashaRegistered) = [0, 0]" "length (heap ashaRegistered) = 1"
    by (simp_all add: ashaRegistered_eq)
  ultimately show ?thesis using r dup len by simp
qed

section \<open>Password reset and login\<close>

lemmas scenario_defs = sendOTP_def generateOTP_def resetPassword_def verifyOTP_def mapDelete_def
  login_def isSessionValid_def

text \<open>
  A login whose password verifies cannot return where \<open>rememberMe\<close> is not bound, in any
  state and for any credentials.
\<close>

lemma login_unbound_raises:
  assumes "resolveKey (emailOrMobile credentials) s = Some user"
    and "verifyPassword sha (password credentials) (hashedPassword user)"
  shows "fst (login sha None rnd now credentials s)
           = Raised (ReferenceError ''rememberMe is not defined'')"
  using assms by (auto simp: login_def resolveKey_def Let_def split: option.splits)

text \<open>
  C8. The scenario of the password reset on the code: Asha is registered with \<open>pw1\<close>, a
  reset OTP is issued for her email, and \<open>resetPassword\<close> with that code and \<open>pw2\<close>
  returns true. A login with \<open>pw1\<close> then returns \<open>null\<close>. A login with \<open>pw2\<close> passes the
  password check and saves the login date, and then reads \<open>rememberMe\<close>: with no such
  global it raises a ReferenceError and leaves no session; it returns the user only where
  a global of that name exists.
\<close>

theorem reset_then_login_raises:
  "(let s1 = snd (sendOTP 23456 2000 ''a@x.com'' ResetOTP ashaRegistered);
        r = resetPassword exampleDigest 3000
              \<lparr>rst_email = ''a@x.com'', newPassword = ''pw2'', rst_otp = ''123456''\<rparr> s1;
        old = login exampleDigest None ''k3j2'' 4000
                \<lparr>emailOrMobile = ''a@x.com'', password = ''pw1''\<rparr> (snd r);
        new = login exampleDigest None ''k3j2'' 4000
                \<lparr>emailOrMobile = ''a@x.com'', password = ''pw2''\<rparr> (snd r);
        bound = login exampleDigest (Some False) ''k3j2'' 4000
                \<lparr>emailOrMobile = ''a@x.com'', password = ''pw2''\<rparr> (snd r)
    in respOtp (fst (sendOTP 23456 2000 ''a@x.com'' ResetOTP ashaRegistered)) = Some ''123456''
       \<and> fst r = True
       \<and> fst old = Returned None
       \<and> fst new = Raised (ReferenceError ''rememberMe is not defined'')
       \<and> map lastLoginDate (fortas_users (snd new)) = [Some 4000]
       \<and> sessions (snd new) = [] \<and> \<not> isSessionValid 4000 (snd new)
       \<and> map_option uid (case fst bound of Returned user \<Rightarrow> user | Raised e \<Rightarrow> None)
           = Some ''user_1000''
       \<and> isSessionValid 4000 (snd bound))"
  by (simp add: scenario_defs ashaRegistered_eq eval_defs example_hashes)

text \<open>
  The reset is also lost once the email has been changed: the old key keeps the earlier
  object in the map, ahead of the newly loaded one of the same id, and \<open>saveUsers\<close>
  writes the first object of an id. \<open>resetPassword\<close> by the new email returns true, yet
  the saved hash is still the one of \<open>pw1\<close>, which is the password that logs in.
\<close>

lemma reset_lost_after_email_change:
  "(let s0 = snd (updateProfile ''user_1000'' emailChange ashaRegistered);
        s1 = snd (sendOTP 23456 2000 ''b@x.com'' ResetOTP s0);
        r = resetPassword exampleDigest 3000
              \<lparr>rst_email = ''b@x.com'', newPassword = ''pw2'', rst_otp = ''123456''\<rparr> s1
    in fst r = True
       \<and> map hashedPassword (fortas_users (snd r)) = [hashPassword exampleDigest ''pw1'']
       \<and> fst (login exampleDigest (Some False) ''k3j2'' 4000
                \<lparr>emailOrMobile = ''b@x.com'', password = ''pw2''\<rparr> (snd r)) = Returned None
       \<and> fst (login exampleDigest (Some False) ''k3j2'' 4000
                \<lparr>emailOrMobile = ''b@x.com'', password = ''pw1''\<rparr> (snd r)) \<noteq> Returned None)"
  by (simp add: scenario_defs updateProfile_def emailChange_def objectAssign_def
      ashaRegistered_eq eval_defs example_hashes)

end
